theory Spec2Isabelle
  imports Complex_Main
begin

section \<open>Python values\<close>

text \<open>
  The staking engine computes with Python floats and integers. For the staking functions
  floats are read as exact real numbers: the statements about them are about the
  arithmetic the code writes down. The round trip between American and decimal odds
  depends on how each float operation rounds before \<open>int()\<close> truncates, so the two
  conversion functions are also modelled with the rounding of IEEE binary64 (\<open>fl\<close>
  below). American odds are Python integers (\<open>int\<close>). The only exception the modelled
  functions can raise on numeric input is \<open>ZeroDivisionError\<close>; a function that can
  raise returns \<open>py_error + 'a\<close>, with \<open>Inl\<close> for the exception.
\<close>

datatype py_error = ZeroDivisionError

definition py_truediv :: "real \<Rightarrow> real \<Rightarrow> py_error + real" where
  \<comment> \<open>Python's \<open>a / b\<close>\<close>
  "py_truediv a b = (if b = 0 then Inl ZeroDivisionError else Inr (a / b))"

definition py_int :: "real \<Rightarrow> int" where
  \<comment> \<open>Python's \<open>int(x)\<close> on a float: truncation towards zero\<close>
  "py_int x = (if 0 \<le> x then \<lfloor>x\<rfloor> else \<lceil>x\<rceil>)"

text \<open>
  A Python float is an IEEE binary64 number, and every float operation returns the exact
  result rounded to the nearest such number, ties to the even significand. \<open>rne\<close> rounds
  a real to the nearest integer, ties to even; \<open>fl\<close> scales its argument so that the
  significand has 53 bits, rounds it and scales back. The exponent is not bounded:
  overflow and subnormal numbers, which the odds conversions never reach, are left out.
\<close>

definition rne :: "real \<Rightarrow> int" where
  "rne y = (let f = \<lfloor>y\<rfloor>; t = y - of_int f
            in if t < 1 / 2 then f else if 1 / 2 < t then f + 1
               else if even f then f else f + 1)"

definition fl :: "real \<Rightarrow> real" where
  "fl x = (if x = 0 then 0
           else (let s = 2 powr (of_int \<lfloor>log 2 \<bar>x\<bar>\<rfloor> - 52)
                 in of_int (rne (x / s)) * s))"

section \<open>config.py\<close>

record risk_thresholds_cfg =
  LOW :: real
  MEDIUM :: real
  HIGH :: real

definition RISK_THRESHOLDS :: risk_thresholds_cfg where
  "RISK_THRESHOLDS = \<lparr>LOW = 5 / 100, MEDIUM = 15 / 100, HIGH = 15 / 100\<rparr>"

section \<open>utils/helpers.py: odds conversion\<close>

definition american_to_decimal :: "int \<Rightarrow> py_error + real" where
  "american_to_decimal american_odds =
     (if american_odds > 0 then Inr (real_of_int american_odds / 100 + 1)
      else (case py_truediv 100 (real_of_int \<bar>american_odds\<bar>) of
              Inl e \<Rightarrow> Inl e
            | Inr v \<Rightarrow> Inr (v + 1)))"

text \<open>
  The same function with every float operation rounded: the true division of two
  integers is the exact quotient rounded once, then the sum is rounded.
\<close>

definition american_to_decimal_fl :: "int \<Rightarrow> py_error + real" where
  "american_to_decimal_fl american_odds =
     (if american_odds > 0 then Inr (fl (fl (real_of_int american_odds / 100) + 1))
      else (case py_truediv 100 (real_of_int \<bar>american_odds\<bar>) of
              Inl e \<Rightarrow> Inl e
            | Inr v \<Rightarrow> Inr (fl (fl v + 1))))"

definition decimal_to_american :: "real \<Rightarrow> py_error + int" where
  \<comment> \<open>with every float operation rounded; \<open>int()\<close> truncates the rounded value\<close>
  "decimal_to_american decimal_odds =
     (if decimal_odds \<ge> 2 then Inr (py_int (fl (fl (decimal_odds - 1) * 100)))
      else (case py_truediv (- 100) (fl (decimal_odds - 1)) of
              Inl e \<Rightarrow> Inl e
            | Inr v \<Rightarrow> Inr (py_int (fl v))))"

definition implied_probability :: "int \<Rightarrow> py_error + real" where
  "implied_probability american_odds =
     (case american_to_decimal american_odds of
        Inl e \<Rightarrow> Inl e
      | Inr decimal_odds \<Rightarrow> py_truediv 1 decimal_odds)"

definition calculate_edge :: "real \<Rightarrow> int \<Rightarrow> py_error + real" where
  "calculate_edge win_probability american_odds =
     (case implied_probability american_odds of
        Inl e \<Rightarrow> Inl e
      | Inr implied_prob \<Rightarrow> Inr (win_probability - implied_prob))"

definition kelly_criterion :: "real \<Rightarrow> int \<Rightarrow> py_error + real" where
  "kelly_criterion win_probability american_odds =
     (case american_to_decimal american_odds of
        Inl e \<Rightarrow> Inl e
      | Inr decimal_odds \<Rightarrow>
          (let b = decimal_odds - 1;
               p = win_probability;
               q = 1 - p
           in case py_truediv (b * p - q) b of
                Inl e \<Rightarrow> Inl e
              | Inr kelly_fraction \<Rightarrow> Inr (max 0 kelly_fraction)))"

definition helpers_assess_risk :: "real \<Rightarrow> string" where
  \<comment> \<open>\<open>assess_risk\<close> of utils/helpers.py: compares with the thresholds as they are\<close>
  "helpers_assess_risk stake_percentage =
     (if stake_percentage < LOW RISK_THRESHOLDS then ''LOW RISK''
      else if stake_percentage < MEDIUM RISK_THRESHOLDS then ''MEDIUM RISK''
      else ''HIGH RISK'')"

section \<open>models/kelly_calculator.py: class KellyCalculator\<close>

text \<open>
  The object holds the risk thresholds it read from the configuration when it was
  built; the methods that read \<open>self\<close> take it as their first argument.
\<close>

record kelly_calculator =
  risk_thresholds :: risk_thresholds_cfg

definition KellyCalculator :: kelly_calculator where
  "KellyCalculator = \<lparr>risk_thresholds = RISK_THRESHOLDS\<rparr>"

definition calculate_kelly_fraction :: "real \<Rightarrow> int \<Rightarrow> py_error + real" where
  "calculate_kelly_fraction win_probability american_odds =
     (if win_probability \<le> 0 \<or> win_probability \<ge> 1 then Inr 0
      else (case american_to_decimal american_odds of
              Inl e \<Rightarrow> Inl e
            | Inr decimal_odds \<Rightarrow>
                (let b = decimal_odds - 1;
                     p = win_probability;
                     q = 1 - p
                 in case py_truediv (b * p - q) b of
                      Inl e \<Rightarrow> Inl e
                    | Inr kelly_fraction \<Rightarrow> Inr (max 0 kelly_fraction))))"

definition calculate_expected_value :: "real \<Rightarrow> int \<Rightarrow> real \<Rightarrow> py_error + real" where
  "calculate_expected_value win_probability american_odds stake =
     (case american_to_decimal american_odds of
        Inl e \<Rightarrow> Inl e
      | Inr decimal_odds \<Rightarrow>
          (let win_amount = stake * (decimal_odds - 1);
               lose_amount = - stake
           in Inr (win_probability * win_amount + (1 - win_probability) * lose_amount)))"

definition assess_risk :: "kelly_calculator \<Rightarrow> real \<Rightarrow> string" where
  "assess_risk self stake_percentage =
     (if stake_percentage < LOW (risk_thresholds self) * 100 then ''LOW RISK''
      else if stake_percentage < MEDIUM (risk_thresholds self) * 100 then ''MEDIUM RISK''
      else ''HIGH RISK'')"

text \<open>
  The dictionary \<open>calculate_recommended_stake\<close> returns has a fixed set of keys; it is a
  record with one field per key. The key \<open>implied_probability\<close> is the field
  \<open>implied_probability_pct\<close>, since the helper function has that name.
\<close>

record stake_record =
  win_probability :: real
  implied_probability_pct :: real
  edge :: real
  kelly_fraction :: real
  modified_kelly :: real
  recommended_stake :: real
  stake_percentage :: real
  expected_value :: real
  risk_assessment :: string
  available_bankroll :: real

definition calculate_recommended_stake ::
  "kelly_calculator \<Rightarrow> real \<Rightarrow> int \<Rightarrow> real \<Rightarrow> real \<Rightarrow> real \<Rightarrow> py_error + stake_record" where
  "calculate_recommended_stake self win_prob american_odds bankroll kelly_modifier
       max_bankroll_percent =
     (case calculate_kelly_fraction win_prob american_odds of
        Inl e \<Rightarrow> Inl e
      | Inr kelly \<Rightarrow>
          (let modified = kelly * kelly_modifier;
               available = bankroll * max_bankroll_percent;
               stake = available * modified
           in case implied_probability american_odds of
                Inl e \<Rightarrow> Inl e
              | Inr implied_prob \<Rightarrow>
                  (case calculate_edge win_prob american_odds of
                     Inl e \<Rightarrow> Inl e
                   | Inr edge_value \<Rightarrow>
                       (case calculate_expected_value win_prob american_odds stake of
                          Inl e \<Rightarrow> Inl e
                        | Inr ev \<Rightarrow>
                            (let stake_pct =
                                   (if bankroll > 0 then (stake / bankroll) * 100 else 0);
                                 risk = assess_risk self stake_pct
                             in Inr \<lparr>win_probability = win_prob * 100,
                                     implied_probability_pct = implied_prob * 100,
                                     edge = edge_value * 100,
                                     kelly_fraction = kelly * 100,
                                     modified_kelly = modified * 100,
                                     recommended_stake = stake,
                                     stake_percentage = stake_pct,
                                     expected_value = ev,
                                     risk_assessment = risk,
                                     available_bankroll = available\<rparr>)))))"

definition validate_inputs :: "real \<Rightarrow> int \<Rightarrow> real \<Rightarrow> bool \<times> string" where
  "validate_inputs win_prob american_odds bankroll =
     (if \<not> (0 < win_prob \<and> win_prob < 1)
        then (False, ''Win probability must be between 0 and 1'')
      else if american_odds = 0
        then (False, ''Odds cannot be zero'')
      else if american_odds > - 100 \<and> american_odds < 100
        then (False, ''American odds must be less than -100 or greater than +100'')
      else if bankroll \<le> 0
        then (False, ''Bankroll must be positive'')
      else (True, ''Valid inputs''))"

subsection \<open>simulate_kelly_betting\<close>

text \<open>
  The local variables of the loop are the state. The draws of \<open>np.random.random()\<close> are
  a parameter: \<open>rnd bet_num\<close> is the number the call returns in iteration \<open>bet_num\<close>
  (there is exactly one call per iteration).
\<close>

record sim_state =
  bankroll_history :: "real list"
  current_bankroll :: real
  wins :: int
  losses :: int
  max_drawdown :: real
  peak_bankroll :: real

definition settle_bet :: "real \<Rightarrow> real \<Rightarrow> int \<Rightarrow> real \<Rightarrow> sim_state \<Rightarrow> py_error + sim_state" where
  \<comment> \<open>the stake and the outcome of one iteration\<close>
  "settle_bet draw win_prob american_odds kelly_modifier s =
     (case calculate_kelly_fraction win_prob american_odds of
        Inl e \<Rightarrow> Inl e
      | Inr kelly \<Rightarrow>
          (let stake = current_bankroll s * kelly * kelly_modifier
           in if draw < win_prob then
                (case american_to_decimal american_odds of
                   Inl e \<Rightarrow> Inl e
                 | Inr decimal_odds \<Rightarrow>
                     (let payout = stake * decimal_odds
                      in Inr (s\<lparr>current_bankroll := current_bankroll s - stake + payout,
                                wins := wins s + 1\<rparr>)))
              else Inr (s\<lparr>current_bankroll := current_bankroll s - stake,
                          losses := losses s + 1\<rparr>)))"

definition track_metrics :: "sim_state \<Rightarrow> py_error + sim_state" where
  \<comment> \<open>the bookkeeping of one iteration, after the bet is settled\<close>
  "track_metrics s =
     (let s1 = s\<lparr>bankroll_history := bankroll_history s @ [current_bankroll s]\<rparr>;
          s2 = (if current_bankroll s1 > peak_bankroll s1
                then s1\<lparr>peak_bankroll := current_bankroll s1\<rparr> else s1)
      in case py_truediv (peak_bankroll s2 - current_bankroll s2) (peak_bankroll s2) of
           Inl e \<Rightarrow> Inl e
         | Inr current_drawdown \<Rightarrow>
             Inr (if current_drawdown > max_drawdown s2
                  then s2\<lparr>max_drawdown := current_drawdown\<rparr> else s2))"

definition sim_bet :: "real \<Rightarrow> real \<Rightarrow> int \<Rightarrow> real \<Rightarrow> sim_state \<Rightarrow> py_error + sim_state" where
  "sim_bet draw win_prob american_odds kelly_modifier s =
     (case settle_bet draw win_prob american_odds kelly_modifier s of
        Inl e \<Rightarrow> Inl e
      | Inr s' \<Rightarrow> track_metrics s')"

fun sim_loop ::
  "(nat \<Rightarrow> real) \<Rightarrow> real \<Rightarrow> int \<Rightarrow> real \<Rightarrow> nat list \<Rightarrow> sim_state \<Rightarrow> py_error + sim_state" where
  "sim_loop rnd win_prob american_odds kelly_modifier [] s = Inr s"
| "sim_loop rnd win_prob american_odds kelly_modifier (bet_num # rest) s =
     (case sim_bet (rnd bet_num) win_prob american_odds kelly_modifier s of
        Inl e \<Rightarrow> Inl e
      | Inr s' \<Rightarrow>
          if current_bankroll s' \<le> 0 then Inr s'
          else sim_loop rnd win_prob american_odds kelly_modifier rest s')"

text \<open>
  The result dictionary, as a record. Its keys \<open>wins\<close>, \<open>losses\<close>, \<open>max_drawdown\<close> and
  \<open>bankroll_history\<close> are the fields \<open>total_wins\<close>, \<open>total_losses\<close>, \<open>max_drawdown_pct\<close>
  and \<open>history\<close> (the loop state has the other names).
\<close>

record sim_result =
  initial_bankroll :: real
  final_bankroll :: real
  total_bets :: int
  total_wins :: int
  total_losses :: int
  win_rate :: real
  roi :: real
  max_drawdown_pct :: real
  history :: "real list"

definition simulate_kelly_betting ::
  "(nat \<Rightarrow> real) \<Rightarrow> real \<Rightarrow> int \<Rightarrow> real \<Rightarrow> int \<Rightarrow> real \<Rightarrow> py_error + sim_result" where
  "simulate_kelly_betting rnd win_prob american_odds initial num_bets kelly_modifier =
     (case sim_loop rnd win_prob american_odds kelly_modifier [0 ..< nat num_bets]
             \<lparr>bankroll_history = [initial], current_bankroll = initial, wins = 0,
              losses = 0, max_drawdown = 0, peak_bankroll = initial\<rparr> of
        Inl e \<Rightarrow> Inl e
      | Inr s \<Rightarrow>
          (case py_truediv (current_bankroll s - initial) initial of
             Inl e \<Rightarrow> Inl e
           | Inr gain \<Rightarrow>
               (let final_roi = gain * 100;
                    rate = (if wins s + losses s > 0
                            then (real_of_int (wins s) / real_of_int (wins s + losses s)) * 100
                            else 0)
                in Inr \<lparr>initial_bankroll = initial,
                        final_bankroll = current_bankroll s,
                        total_bets = wins s + losses s,
                        total_wins = wins s,
                        total_losses = losses s,
                        win_rate = rate,
                        roi = final_roi,
                        max_drawdown_pct = max_drawdown s * 100,
                        history = bankroll_history s\<rparr>)))"

section \<open>Facts about the odds conversion and the Kelly fraction\<close>


lemma american_to_decimal_value:
  "odds \<noteq> 0 \<Longrightarrow> american_to_decimal odds =
     Inr (if odds > 0 then real_of_int odds / 100 + 1 else 100 / real_of_int \<bar>odds\<bar> + 1)"
  by (simp add: american_to_decimal_def py_truediv_def)

lemma american_to_decimal_gt_one:
  assumes "odds \<noteq> 0"
  shows "\<exists>d. american_to_decimal odds = Inr d \<and> 1 < d"
  using assms by (simp add: american_to_decimal_value)

lemma kelly_fraction_value:
  assumes "american_to_decimal odds = Inr d" and "1 < d"
  shows "calculate_kelly_fraction p odds =
     Inr (if p \<le> 0 \<or> p \<ge> 1 then 0 else max 0 (((d - 1) * p - (1 - p)) / (d - 1)))"
  using assms by (simp add: calculate_kelly_fraction_def py_truediv_def Let_def)

lemma raw_kelly_le:
  fixes d p :: real
  assumes "1 < d" and "p < 1"
  shows "((d - 1) * p - (1 - p)) / (d - 1) < p"
proof -
  have "(d - 1) * p - (1 - p) < p * (d - 1)" using assms by (simp add: algebra_simps)
  then show ?thesis using assms by (simp add: pos_divide_less_eq)
qed

lemma kelly_fraction_bounds:
  assumes "odds \<noteq> 0"
  shows "\<exists>f. calculate_kelly_fraction p odds = Inr f \<and> 0 \<le> f \<and> f < 1 \<and> (0 < p \<and> p < 1 \<longrightarrow> f \<le> p)"
proof -
  from american_to_decimal_gt_one [OF assms] obtain d
    where d: "american_to_decimal odds = Inr d" "1 < d" by blast
  show ?thesis
  proof (cases "p \<le> 0 \<or> p \<ge> 1")
    case True
    then show ?thesis using kelly_fraction_value [OF d, of p] by auto
  next
    case False
    then have p: "0 < p" "p < 1" by auto
    from raw_kelly_le [OF d(2) p(2)] p
    show ?thesis using kelly_fraction_value [OF d, of p] by auto
  qed
qed


lemma recommended_stake_value:
  assumes "american_to_decimal odds = Inr d" and "1 < d"
    and "calculate_kelly_fraction p odds = Inr f"
  shows "calculate_recommended_stake self p odds B m c =
     Inr \<lparr>win_probability = p * 100,
          implied_probability_pct = (1 / d) * 100,
          edge = (p - 1 / d) * 100,
          kelly_fraction = f * 100,
          modified_kelly = (f * m) * 100,
          recommended_stake = (B * c) * (f * m),
          stake_percentage = (if B > 0 then ((B * c) * (f * m) / B) * 100 else 0),
          expected_value = p * ((B * c) * (f * m) * (d - 1)) + (1 - p) * (- ((B * c) * (f * m))),
          risk_assessment =
            assess_risk self (if B > 0 then ((B * c) * (f * m) / B) * 100 else 0),
          available_bankroll = B * c\<rparr>"
  using assms
  by (simp add: calculate_recommended_stake_def implied_probability_def calculate_edge_def
      calculate_expected_value_def py_truediv_def Let_def)

lemma recommended_stake_returns:
  assumes "odds \<noteq> 0"
  shows "\<exists>d f r. american_to_decimal odds = Inr d \<and> 1 < d \<and>
           calculate_kelly_fraction p odds = Inr f \<and> 0 \<le> f \<and> f < 1 \<and>
           calculate_recommended_stake self p odds B m c = Inr r \<and>
           recommended_stake r = (B * c) * (f * m)"
proof -
  from american_to_decimal_gt_one [OF assms] obtain d
    where d: "american_to_decimal odds = Inr d" "1 < d" by blast
  from kelly_fraction_bounds [OF assms, of p] obtain f
    where f: "calculate_kelly_fraction p odds = Inr f" "0 \<le> f" "f < 1" by blast
  show ?thesis
    using d f recommended_stake_value [OF d f(1), of self B m c] by simp
qed

section \<open>The claims\<close>

text \<open>
  C1. For every win probability, American odds of magnitude at least 100, bankroll that
  is not negative, modifier in (0,1] and cap in [0,1], \<open>calculate_recommended_stake\<close>
  returns a record (it does not raise) whose recommended stake is at least 0 and at most
  bankroll times cap.
\<close>

theorem stake_bound:
  assumes "100 \<le> \<bar>odds\<bar>" and "0 \<le> B" and "0 < m" and "m \<le> 1" and "0 \<le> c" and "c \<le> 1"
  shows "\<exists>r. calculate_recommended_stake self p odds B m c = Inr r \<and>
           0 \<le> recommended_stake r \<and> recommended_stake r \<le> B * c"
proof -
  from assms have "odds \<noteq> 0" by auto
  from recommended_stake_returns [OF this, of p self B m c] obtain f r
    where f: "0 \<le> f" "f < 1"
      and r: "calculate_recommended_stake self p odds B m c = Inr r"
        "recommended_stake r = (B * c) * (f * m)" by blast
  have avail: "0 \<le> B * c" using assms by simp
  have fm0: "0 \<le> f * m" using f assms by simp
  have "f * m \<le> 1 * 1" using f assms by (intro mult_mono) auto
  then have fm1: "f * m \<le> 1" by simp
  have "(B * c) * (f * m) \<le> (B * c) * 1"
    using avail fm1 by (rule mult_left_mono [rotated])
  with avail fm0 r show ?thesis by simp
qed

theorem stake_bound_witness:
  "(100::int) \<le> \<bar>150\<bar> \<and>
   calculate_recommended_stake KellyCalculator (1/2) 150 1000 (1/2) 1 =
     Inr \<lparr>win_probability = 50, implied_probability_pct = 40, edge = 10,
          kelly_fraction = 50 / 3, modified_kelly = 25 / 3, recommended_stake = 250 / 3,
          stake_percentage = 25 / 3, expected_value = 125 / 6,
          risk_assessment = ''MEDIUM RISK'', available_bankroll = 1000\<rparr> \<and>
   (0::real) \<le> 250 / 3 \<and> (250::real) / 3 \<le> 1000 * 1"
  using stake_bound [of 150 1000 "1/2" 1 KellyCalculator "1/2"]
  by (simp add: calculate_recommended_stake_def calculate_kelly_fraction_def
      american_to_decimal_def implied_probability_def calculate_edge_def
      calculate_expected_value_def py_truediv_def Let_def assess_risk_def
      KellyCalculator_def RISK_THRESHOLDS_def)

text \<open>
  C2. For American odds of magnitude at least 100 the decimal odds exceed 1, and with
  \<open>b = decimal_odds - 1\<close>, \<open>q = 1 - p\<close> and the raw value \<open>(b p - q) / b\<close>,
  \<open>calculate_kelly_fraction\<close> returns 0 when \<open>p \<le> 0\<close>, \<open>p \<ge> 1\<close> or the raw value is
  negative, and the raw value itself otherwise: there is a floor at 0 and no cap at 1.
\<close>

theorem kelly_fraction_formula:
  assumes "100 \<le> \<bar>odds\<bar>"
  shows "\<exists>decimal_odds. american_to_decimal odds = Inr decimal_odds \<and> 1 < decimal_odds \<and>
           (let b = decimal_odds - 1; q = 1 - p; raw = (b * p - q) / b
            in calculate_kelly_fraction p odds =
                 Inr (if p \<le> 0 \<or> 1 \<le> p \<or> raw < 0 then 0 else raw))"
proof -
  from assms have "odds \<noteq> 0" by auto
  from american_to_decimal_gt_one [OF this] obtain d
    where d: "american_to_decimal odds = Inr d" "1 < d" by blast
  have "calculate_kelly_fraction p odds =
      Inr (if p \<le> 0 \<or> 1 \<le> p \<or> ((d - 1) * p - (1 - p)) / (d - 1) < 0 then 0
           else ((d - 1) * p - (1 - p)) / (d - 1))"
    unfolding kelly_fraction_value [OF d] by (simp add: max_def)
  with d show ?thesis by (simp add: Let_def)
qed

theorem kelly_fraction_formula_witness:
  "(100::int) \<le> \<bar>- 110\<bar> \<and> american_to_decimal (- 110) = Inr (21 / 11) \<and>
   calculate_kelly_fraction (55 / 100) (- 110) = Inr (11 / 200) \<and>
   calculate_kelly_fraction (4 / 10) (- 200) = Inr 0 \<and>
   calculate_kelly_fraction 1 (- 110) = Inr 0"
  using kelly_fraction_formula [of "- 110" "55 / 100"]
  by (simp add: calculate_kelly_fraction_def american_to_decimal_def py_truediv_def Let_def)

text \<open>
  C9. For a win probability in (0,1) and nonzero American odds, the Kelly fraction (of the
  class method and of the helper \<open>kelly_criterion\<close> alike) is at most the win
  probability, hence strictly below 1.
\<close>

theorem kelly_fraction_le_probability:
  assumes "0 < p" and "p < 1" and "odds \<noteq> 0"
  shows "\<exists>f. calculate_kelly_fraction p odds = Inr f \<and> kelly_criterion p odds = Inr f \<and>
           f \<le> p \<and> f < 1"
proof -
  from kelly_fraction_bounds [OF assms(3), of p] assms(1,2) obtain f
    where f: "calculate_kelly_fraction p odds = Inr f" "f \<le> p" "f < 1" by blast
  have "kelly_criterion p odds = calculate_kelly_fraction p odds"
    using assms(1,2) by (simp add: kelly_criterion_def calculate_kelly_fraction_def)
  with f show ?thesis by simp
qed

theorem kelly_fraction_le_probability_witness:
  "(0::real) < 99 / 100 \<and> (99::real) / 100 < 1 \<and> (100000::int) \<noteq> 0 \<and>
   calculate_kelly_fraction (99 / 100) 100000 = Inr (98999 / 100000) \<and>
   kelly_criterion (99 / 100) 100000 = Inr (98999 / 100000) \<and>
   (98999::real) / 100000 \<le> 99 / 100"
  using kelly_fraction_le_probability [of "99 / 100" 100000]
  by (simp add: calculate_kelly_fraction_def kelly_criterion_def american_to_decimal_def
      py_truediv_def Let_def)

text \<open>
  C8. \<open>validate_inputs\<close> fails exactly when the probability is outside the open interval
  (0,1), or the odds are 0, or their magnitude is strictly between 0 and 100, or the
  bankroll is not positive; the message is never empty and is \<open>Valid inputs\<close> exactly on
  success.
\<close>

theorem validate_inputs_iff:
  "(fst (validate_inputs p odds B) = False) =
     (p \<le> 0 \<or> 1 \<le> p \<or> odds = 0 \<or> (0 < \<bar>odds\<bar> \<and> \<bar>odds\<bar> < 100) \<or> B \<le> 0) \<and>
   fst (validate_inputs p odds B) = (snd (validate_inputs p odds B) = ''Valid inputs'') \<and>
   snd (validate_inputs p odds B) \<noteq> []"
  by (auto simp: validate_inputs_def)

text \<open>
  C6. With the default thresholds the risk tier depends on the stake percentage alone:
  LOW below 5, MEDIUM from 5 up to (not including) 15, HIGH from 15 on. The helper
  \<open>assess_risk\<close> of utils/helpers.py gives the same tiers to a stake given as a unit
  fraction. Whatever thresholds the calculator holds, the recommended stake is the same.
\<close>

theorem risk_tiers:
  "assess_risk KellyCalculator pct =
     (if pct < 5 then ''LOW RISK'' else if pct < 15 then ''MEDIUM RISK'' else ''HIGH RISK'') \<and>
   helpers_assess_risk x = assess_risk KellyCalculator (x * 100) \<and>
   map_sum id recommended_stake (calculate_recommended_stake self p odds B m c) =
     map_sum id recommended_stake (calculate_recommended_stake self' p odds B m c)"
proof -
  have tiers: "assess_risk KellyCalculator y =
      (if y < 5 then ''LOW RISK'' else if y < 15 then ''MEDIUM RISK'' else ''HIGH RISK'')" for y
    by (simp add: assess_risk_def KellyCalculator_def RISK_THRESHOLDS_def)
  have helper: "helpers_assess_risk x = assess_risk KellyCalculator (x * 100)"
    unfolding tiers by (simp add: helpers_assess_risk_def RISK_THRESHOLDS_def)
  have stake: "map_sum id recommended_stake (calculate_recommended_stake self p odds B m c) =
     map_sum id recommended_stake (calculate_recommended_stake self' p odds B m c)"
    by (simp add: calculate_recommended_stake_def Let_def split: sum.splits)
  from tiers helper stake show ?thesis by blast
qed

text \<open>
  C7. With probability, nonzero odds and a bankroll that is not negative held fixed, and
  modifiers and caps that are not negative, the recommended stake does not decrease when
  the modifier grows (same cap) nor when the cap grows (same modifier).
\<close>

theorem stake_monotone:
  assumes "odds \<noteq> 0" and "0 \<le> B"
    and "0 \<le> m1" and "m1 \<le> m2" and "0 \<le> c1" and "c1 \<le> c2"
  shows "\<exists>r11 r21 r12.
           calculate_recommended_stake self p odds B m1 c1 = Inr r11 \<and>
           calculate_recommended_stake self p odds B m2 c1 = Inr r21 \<and>
           calculate_recommended_stake self p odds B m1 c2 = Inr r12 \<and>
           recommended_stake r11 \<le> recommended_stake r21 \<and>
           recommended_stake r11 \<le> recommended_stake r12"
proof -
  from american_to_decimal_gt_one [OF assms(1)] obtain d
    where d: "american_to_decimal odds = Inr d" "1 < d" by blast
  from kelly_fraction_bounds [OF assms(1), of p] obtain f
    where f: "calculate_kelly_fraction p odds = Inr f" "0 \<le> f" by blast
  note val = recommended_stake_value [OF d f(1)]
  have "f * m1 \<le> f * m2" using f(2) assms(4) by (rule mult_left_mono [rotated])
  then have in_modifier: "(B * c1) * (f * m1) \<le> (B * c1) * (f * m2)"
    using assms(2,5) by (simp add: mult_left_mono)
  have "B * c1 \<le> B * c2" using assms(2,6) by (rule mult_left_mono [rotated])
  then have in_cap: "(B * c1) * (f * m1) \<le> (B * c2) * (f * m1)"
    using f(2) assms(3) by (simp add: mult_right_mono)
  show ?thesis
    using in_modifier in_cap by (simp add: val)
qed

theorem stake_monotone_witness:
  "(150::int) \<noteq> 0 \<and> (0::real) \<le> 1000 \<and> (0::real) \<le> 1 / 4 \<and> (1::real) / 4 \<le> 1 / 2 \<and>
   (0::real) \<le> 1 / 2 \<and> (1::real) / 2 \<le> 1 \<and>
   map_sum id recommended_stake
     (calculate_recommended_stake KellyCalculator (1 / 2) 150 1000 (1 / 4) (1 / 2)) = Inr (125 / 6) \<and>
   map_sum id recommended_stake
     (calculate_recommended_stake KellyCalculator (1 / 2) 150 1000 (1 / 2) (1 / 2)) = Inr (125 / 3) \<and>
   map_sum id recommended_stake
     (calculate_recommended_stake KellyCalculator (1 / 2) 150 1000 (1 / 4) 1) = Inr (125 / 3)"
  using stake_monotone [of 150 1000 "1 / 4" "1 / 2" "1 / 2" 1 KellyCalculator "1 / 2"]
  by (simp add: calculate_recommended_stake_def calculate_kelly_fraction_def
      american_to_decimal_def implied_probability_def calculate_edge_def
      calculate_expected_value_def py_truediv_def Let_def)

text \<open>
  C4, as stated, fails: at win probability 0, odds +100 and bankroll 1000 the record has
  Kelly fraction 0 and stake 0, but its edge is -50, not 0.
\<close>

theorem zero_probability_edge_counterexample:
  "calculate_recommended_stake KellyCalculator 0 100 1000 1 1 =
     Inr \<lparr>win_probability = 0, implied_probability_pct = 50, edge = - 50,
          kelly_fraction = 0, modified_kelly = 0, recommended_stake = 0,
          stake_percentage = 0, expected_value = 0,
          risk_assessment = ''LOW RISK'', available_bankroll = 1000\<rparr>"
  by (simp add: calculate_recommended_stake_def calculate_kelly_fraction_def
      american_to_decimal_def implied_probability_def calculate_edge_def
      calculate_expected_value_def py_truediv_def Let_def assess_risk_def
      KellyCalculator_def RISK_THRESHOLDS_def)

text \<open>
  C4, amended. For nonzero odds \<open>calculate_recommended_stake\<close> returns a record (it does
  not raise); its edge is always the win probability minus the implied probability, times
  100. When the win probability is outside (0,1), the Kelly fraction, the recommended
  stake, the stake percentage and the expected value are 0, and the edge is not 0.
\<close>

theorem degenerate_probability_result:
  assumes "odds \<noteq> 0"
  shows "\<exists>r implied. calculate_recommended_stake self p odds B m c = Inr r \<and>
           implied_probability odds = Inr implied \<and> 0 < implied \<and> implied < 1 \<and>
           edge r = (p - implied) * 100 \<and>
           (p \<le> 0 \<or> 1 \<le> p \<longrightarrow>
              kelly_fraction r = 0 \<and> recommended_stake r = 0 \<and> stake_percentage r = 0 \<and>
              expected_value r = 0 \<and> edge r \<noteq> 0)"
proof -
  from american_to_decimal_gt_one [OF assms] obtain d
    where d: "american_to_decimal odds = Inr d" "1 < d" by blast
  from kelly_fraction_bounds [OF assms, of p] obtain f
    where f: "calculate_kelly_fraction p odds = Inr f" by blast
  note val = recommended_stake_value [OF d f]
  have implied: "implied_probability odds = Inr (1 / d)" "0 < 1 / d" "1 / d < 1"
    using d by (simp_all add: implied_probability_def py_truediv_def)
  have zero: "f = 0" if "p \<le> 0 \<or> 1 \<le> p"
    using that f by (simp add: calculate_kelly_fraction_def)
  have nonzero: "p - 1 / d \<noteq> 0" if "p \<le> 0 \<or> 1 \<le> p"
    using that implied(2,3) by auto
  show ?thesis
    using implied zero nonzero by (auto simp: val)
qed

theorem degenerate_probability_result_witness:
  "(- 200::int) \<noteq> 0 \<and> ((3::real) / 2 \<le> 0 \<or> (1::real) \<le> 3 / 2) \<and>
   implied_probability (- 200) = Inr (2 / 3) \<and>
   calculate_recommended_stake KellyCalculator (3 / 2) (- 200) 1000 1 1 =
     Inr \<lparr>win_probability = 150, implied_probability_pct = 200 / 3, edge = 250 / 3,
          kelly_fraction = 0, modified_kelly = 0, recommended_stake = 0,
          stake_percentage = 0, expected_value = 0,
          risk_assessment = ''LOW RISK'', available_bankroll = 1000\<rparr>"
  using degenerate_probability_result [of "- 200" KellyCalculator "3 / 2" 1000 1 1]
  by (simp add: calculate_recommended_stake_def calculate_kelly_fraction_def
      american_to_decimal_def implied_probability_def calculate_edge_def
      calculate_expected_value_def py_truediv_def Let_def assess_risk_def
      KellyCalculator_def RISK_THRESHOLDS_def)

text \<open>
  C10. In the record returned for nonzero odds, the win probability, the implied
  probability, the edge, the Kelly fraction and the modified Kelly fraction are the unit
  values times 100, and the stake percentage is stake over bankroll times 100; the
  recommended stake, the available bankroll and the expected value are in currency units.
\<close>

theorem record_units:
  assumes "odds \<noteq> 0"
  shows "\<exists>r f implied e.
           calculate_recommended_stake self p odds B m c = Inr r \<and>
           calculate_kelly_fraction p odds = Inr f \<and>
           implied_probability odds = Inr implied \<and>
           calculate_edge p odds = Inr e \<and>
           win_probability r = p * 100 \<and>
           implied_probability_pct r = implied * 100 \<and>
           edge r = e * 100 \<and>
           kelly_fraction r = f * 100 \<and>
           modified_kelly r = (f * m) * 100 \<and>
           stake_percentage r = (if B > 0 then (recommended_stake r / B) * 100 else 0) \<and>
           recommended_stake r = (B * c) * (f * m) \<and>
           available_bankroll r = B * c \<and>
           calculate_expected_value p odds (recommended_stake r) = Inr (expected_value r)"
proof -
  from american_to_decimal_gt_one [OF assms] obtain d
    where d: "american_to_decimal odds = Inr d" "1 < d" by blast
  from kelly_fraction_bounds [OF assms, of p] obtain f
    where f: "calculate_kelly_fraction p odds = Inr f" by blast
  note val = recommended_stake_value [OF d f]
  have implied: "implied_probability odds = Inr (1 / d)"
    using d by (simp add: implied_probability_def py_truediv_def)
  have e: "calculate_edge p odds = Inr (p - 1 / d)"
    using implied by (simp add: calculate_edge_def)
  have ev: "calculate_expected_value p odds s = Inr (p * (s * (d - 1)) + (1 - p) * (- s))" for s
    using d by (simp add: calculate_expected_value_def Let_def)
  show ?thesis
    using f implied e by (simp add: val ev)
qed

theorem record_units_witness:
  "(- 110::int) \<noteq> 0 \<and>
   calculate_kelly_fraction (55 / 100) (- 110) = Inr (11 / 200) \<and>
   implied_probability (- 110) = Inr (11 / 21) \<and>
   calculate_edge (55 / 100) (- 110) = Inr (11 / 420) \<and>
   calculate_recommended_stake KellyCalculator (55 / 100) (- 110) 5000 (1 / 2) 1 =
     Inr \<lparr>win_probability = 55, implied_probability_pct = 1100 / 21, edge = 55 / 21,
          kelly_fraction = 11 / 2, modified_kelly = 11 / 4, recommended_stake = 275 / 2,
          stake_percentage = 11 / 4, expected_value = 55 / 8,
          risk_assessment = ''LOW RISK'', available_bankroll = 5000\<rparr>"
  using record_units [of "- 110" KellyCalculator "55 / 100" 5000 "1 / 2" 1]
  by (simp add: calculate_recommended_stake_def calculate_kelly_fraction_def
      american_to_decimal_def implied_probability_def calculate_edge_def
      calculate_expected_value_def py_truediv_def Let_def assess_risk_def
      KellyCalculator_def RISK_THRESHOLDS_def)

section \<open>Facts about binary64 rounding\<close>

text \<open>
  Rounding to nearest moves a number by at most half a unit in the last place, is
  monotone, commutes with negation, and leaves 1, 2 and 100 as they are.
\<close>

lemma rne_error: "\<bar>of_int (rne y) - y\<bar> \<le> 1 / 2"
  unfolding rne_def Let_def by (auto simp: abs_le_iff)

lemma rne_of_int: "rne (of_int k) = k"
  by (simp add: rne_def)

lemma rne_bounds: "\<lfloor>y\<rfloor> \<le> rne y \<and> rne y \<le> \<lfloor>y\<rfloor> + 1"
  by (simp add: rne_def Let_def)

lemma rne_mono:
  assumes "y \<le> z"
  shows "rne y \<le> rne z"
proof (cases "\<lfloor>y\<rfloor> = \<lfloor>z\<rfloor>")
  case True
  with assms show ?thesis by (auto simp: rne_def Let_def)
next
  case False
  with assms have "\<lfloor>y\<rfloor> < \<lfloor>z\<rfloor>" by (simp add: floor_mono order.not_eq_order_implies_strict)
  with rne_bounds [of y] rne_bounds [of z] show ?thesis by linarith
qed

lemma rne_minus: "rne (- y) = - rne y"
proof (cases "y = of_int \<lfloor>y\<rfloor>")
  case True
  then obtain k where "y = of_int k" ..
  then have "- y = of_int (- k)" by simp
  then show ?thesis using \<open>y = of_int k\<close> by (simp only: rne_of_int)
next
  case False
  then have fl: "\<lfloor>- y\<rfloor> = - \<lfloor>y\<rfloor> - 1"
    by (simp add: floor_minus ceiling_altdef)
  show ?thesis
    unfolding rne_def Let_def fl by (auto simp: algebra_simps)
qed


lemma fl_zero: "fl 0 = 0"
  by (simp add: fl_def)

lemma fl_minus: "fl (- x) = - fl x"
  by (simp add: fl_def Let_def rne_minus)

lemma expo_bounds:
  assumes "0 < x"
  shows "2 powr of_int \<lfloor>log 2 x\<rfloor> \<le> x" and "x < 2 powr (of_int \<lfloor>log 2 x\<rfloor> + 1)"
proof -
  have "of_int \<lfloor>log 2 x\<rfloor> \<le> log 2 x" by simp
  then show "2 powr of_int \<lfloor>log 2 x\<rfloor> \<le> x"
    using assms by (simp add: powr_le_iff)
  have "log 2 x < of_int \<lfloor>log 2 x\<rfloor> + 1" by linarith
  then show "x < 2 powr (of_int \<lfloor>log 2 x\<rfloor> + 1)"
    using assms by (simp add: less_powr_iff)
qed

lemma expo_unique:
  assumes "0 < x" and "2 powr of_int k \<le> x" and "x < 2 powr (of_int k + 1)"
  shows "\<lfloor>log 2 x\<rfloor> = k"
proof -
  have "of_int k \<le> log 2 x" using assms(1,2) by (simp add: le_log_iff)
  moreover have "log 2 x < of_int k + 1" using assms(1,3) by (simp add: log_less_iff)
  ultimately show ?thesis by linarith
qed

lemma fl_error: "\<bar>fl x - x\<bar> \<le> \<bar>x\<bar> / 2 ^ 53"
proof (cases "x = 0")
  case True
  then show ?thesis by (simp add: fl_def)
next
  case False
  define e where "e = \<lfloor>log 2 \<bar>x\<bar>\<rfloor>"
  define s :: real where "s = 2 powr (of_int e - 52)"
  have s: "0 < s" by (simp add: s_def)
  have flx: "fl x = of_int (rne (x / s)) * s"
    using False by (simp add: fl_def Let_def s_def e_def)
  have "fl x - x = (of_int (rne (x / s)) - x / s) * s"
    using s by (simp add: flx algebra_simps)
  then have "\<bar>fl x - x\<bar> = \<bar>of_int (rne (x / s)) - x / s\<bar> * s"
    using s by (simp add: abs_mult)
  also have "\<dots> \<le> (1 / 2) * s"
    using rne_error [of "x / s"] s by (intro mult_right_mono) auto
  also have "\<dots> = 2 powr of_int e / 2 ^ 53"
    by (simp add: s_def powr_diff)
  also have "\<dots> \<le> \<bar>x\<bar> / 2 ^ 53"
    using expo_bounds(1) [of "\<bar>x\<bar>"] False by (simp add: e_def divide_right_mono)
  finally show ?thesis .
qed

lemma fl_eval:
  fixes m :: nat
  assumes "2 ^ 52 \<le> \<bar>x\<bar> * 2 ^ m" and "\<bar>x\<bar> * 2 ^ m < 2 ^ 53"
  shows "fl x = of_int (rne (x * 2 ^ m)) / 2 ^ m"
proof -
  have nz: "x \<noteq> 0" using assms(1) by auto
  have p: "(0::real) < 2 ^ m" by simp
  have e1: "(2::real) powr of_int (52 - int m) = 2 ^ 52 / 2 ^ m"
    by (simp add: powr_diff powr_realpow)
  have e2: "(2::real) powr (of_int (52 - int m) + 1) = 2 ^ 53 / 2 ^ m"
    by (simp add: powr_diff powr_add powr_realpow)
  have "2 ^ 52 / 2 ^ m \<le> \<bar>x\<bar>" using assms(1) p by (simp only: pos_divide_le_eq)
  moreover have "\<bar>x\<bar> < 2 ^ 53 / 2 ^ m" using assms(2) p by (simp only: pos_less_divide_eq)
  ultimately have "2 powr of_int (52 - int m) \<le> \<bar>x\<bar>"
    "\<bar>x\<bar> < 2 powr (of_int (52 - int m) + 1)"
    by (simp_all only: e1 e2)
  from expo_unique [OF _ this] nz have e: "\<lfloor>log 2 \<bar>x\<bar>\<rfloor> = 52 - int m" by simp
  have "(2::real) powr (of_int (52 - int m) - 52) = 1 / 2 ^ m"
    by (simp add: powr_minus powr_realpow divide_simps)
  then show ?thesis
    using nz by (simp add: fl_def Let_def e)
qed

lemma fl_pos_bounds:
  assumes "0 < x"
  shows "2 powr of_int \<lfloor>log 2 x\<rfloor> \<le> fl x" and "fl x \<le> 2 powr (of_int \<lfloor>log 2 x\<rfloor> + 1)"
proof -
  define e where "e = \<lfloor>log 2 x\<rfloor>"
  define s :: real where "s = 2 powr (of_int e - 52)"
  have s: "0 < s" by (simp add: s_def)
  have flx: "fl x = of_int (rne (x / s)) * s"
    using assms by (simp add: fl_def Let_def s_def e_def)
  have lo: "s * 2 ^ 52 = 2 powr of_int e" by (simp add: s_def powr_diff)
  have hi: "s * 2 ^ 53 = 2 powr (of_int e + 1)" by (simp add: s_def powr_diff powr_add)
  have "2 powr of_int e \<le> x" "x < 2 powr (of_int e + 1)"
    using expo_bounds [OF assms] by (simp_all add: e_def)
  then have "of_int (2 ^ 52) \<le> x / s" "x / s \<le> of_int (2 ^ 53)"
    using s lo hi by (simp_all add: field_simps)
  then have "rne (of_int (2 ^ 52)) \<le> rne (x / s)" "rne (x / s) \<le> rne (of_int (2 ^ 53))"
    by (simp_all only: rne_mono)
  then have "2 ^ 52 \<le> rne (x / s)" "rne (x / s) \<le> 2 ^ 53"
    by (simp_all only: rne_of_int)
  then have "2 ^ 52 \<le> (of_int (rne (x / s)) :: real)" "(of_int (rne (x / s)) :: real) \<le> 2 ^ 53"
    by (simp_all add: of_int_le_iff [symmetric] del: of_int_le_iff)
  then have "2 ^ 52 * s \<le> fl x" "fl x \<le> 2 ^ 53 * s"
    using s by (simp_all add: flx)
  then show "2 powr of_int \<lfloor>log 2 x\<rfloor> \<le> fl x" "fl x \<le> 2 powr (of_int \<lfloor>log 2 x\<rfloor> + 1)"
    using lo hi by (simp_all add: e_def mult.commute)
qed

lemma fl_mono_pos:
  assumes "0 < x" and "x \<le> y"
  shows "fl x \<le> fl y"
proof -
  have y: "0 < y" using assms by simp
  have le: "\<lfloor>log 2 x\<rfloor> \<le> \<lfloor>log 2 y\<rfloor>"
    using assms by (intro floor_mono) simp
  show ?thesis
  proof (cases "\<lfloor>log 2 x\<rfloor> = \<lfloor>log 2 y\<rfloor>")
    case True
    define s :: real where "s = 2 powr (of_int \<lfloor>log 2 y\<rfloor> - 52)"
    have s: "0 < s" by (simp add: s_def)
    have "x / s \<le> y / s" using assms(2) s by (simp add: divide_right_mono)
    then have "rne (x / s) \<le> rne (y / s)" by (rule rne_mono)
    then have "of_int (rne (x / s)) * s \<le> of_int (rne (y / s)) * s"
      using s by (simp add: mult_right_mono)
    then show ?thesis
      using assms(1) y True by (simp add: fl_def Let_def s_def)
  next
    case False
    with le have "\<lfloor>log 2 x\<rfloor> + 1 \<le> \<lfloor>log 2 y\<rfloor>" by simp
    then have "(of_int \<lfloor>log 2 x\<rfloor> :: real) + 1 \<le> of_int \<lfloor>log 2 y\<rfloor>"
      by (metis of_int_1 of_int_add of_int_le_iff)
    then have "(2::real) powr (of_int \<lfloor>log 2 x\<rfloor> + 1) \<le> 2 powr of_int \<lfloor>log 2 y\<rfloor>"
      by (simp only: powr_le_cancel_iff)
    with fl_pos_bounds(2) [OF assms(1)] fl_pos_bounds(1) [OF y] show ?thesis by linarith
  qed
qed

lemma fl_one: "fl 1 = 1"
  using fl_eval [of 1 52] rne_of_int [of "2 ^ 52"] by simp

lemma fl_two: "fl 2 = 2"
  using fl_eval [of 2 51] rne_of_int [of "2 ^ 52"] by simp

lemma fl_hundred: "fl 100 = 100"
  using fl_eval [of 100 46] rne_of_int [of "100 * 2 ^ 46"] by simp

section \<open>The round trip of the odds conversion\<close>

text \<open>
  The rounded conversion is the exact one with two roundings, and raises where it does.
\<close>

lemma american_to_decimal_fl_exact:
  "american_to_decimal_fl odds =
     (case american_to_decimal odds of
        Inl e \<Rightarrow> Inl e
      | Inr d \<Rightarrow> Inr (fl (fl (d - 1) + 1)))"
  by (simp add: american_to_decimal_fl_def american_to_decimal_def py_truediv_def)

lemma fl_close:
  assumes "\<bar>x\<bar> \<le> M"
  shows "\<bar>fl x - x\<bar> \<le> M / 1000000000000000"
proof -
  have "\<bar>fl x - x\<bar> \<le> \<bar>x\<bar> / 2 ^ 53" by (rule fl_error)
  also have "\<dots> \<le> \<bar>x\<bar> / 1000000000000000" by (intro divide_left_mono) auto
  also have "\<dots> \<le> M / 1000000000000000" using assms by (simp add: divide_right_mono)
  finally show ?thesis .
qed

lemma fl_ge_one: "1 \<le> x \<Longrightarrow> 1 \<le> fl x"
  using fl_mono_pos [of 1 x] by (simp add: fl_one)

lemma fl_ge_two: "2 \<le> x \<Longrightarrow> 2 \<le> fl x"
  using fl_mono_pos [of 2 x] by (simp add: fl_two)

lemma fl_ge_hundred: "100 \<le> x \<Longrightarrow> 100 \<le> fl x"
  using fl_mono_pos [of 100 x] by (simp add: fl_hundred)

lemma fl_le_one: "0 < x \<Longrightarrow> x \<le> 1 \<Longrightarrow> fl x \<le> 1"
  using fl_mono_pos [of x 1] by (simp add: fl_one)

lemma american_round_trip_pos:
  assumes "100 \<le> odds" and "odds \<le> 1000000"
  shows "\<exists>d a. american_to_decimal_fl odds = Inr d \<and> decimal_to_american d = Inr a \<and>
           (a = odds \<or> a = odds - 1)"
proof -
  define a where "a = real_of_int odds / 100"
  define x1 where "x1 = fl a"
  define x2 where "x2 = fl (x1 + 1)"
  define y1 where "y1 = fl (x2 - 1)"
  define y2 where "y2 = fl (y1 * 100)"
  have a: "1 \<le> a" "a \<le> 10000"
    using assms by (simp_all add: a_def)
  then have "\<bar>a\<bar> \<le> 10000" by linarith
  from fl_close [OF this] have x1e: "\<bar>x1 - a\<bar> \<le> 1 / 100000000000"
    by (simp add: x1_def)
  have x1: "1 \<le> x1" using a(1) by (simp add: x1_def fl_ge_one)
  have "\<bar>x1 + 1\<bar> \<le> 20000" using a x1e by linarith
  from fl_close [OF this] have x2e: "\<bar>x2 - (x1 + 1)\<bar> \<le> 2 / 100000000000"
    by (simp add: x2_def)
  have x2: "2 \<le> x2" using x1 by (simp add: x2_def fl_ge_two)
  have "\<bar>x2 - 1\<bar> \<le> 20000" using a x1e x2e by linarith
  from fl_close [OF this] have y1e: "\<bar>y1 - (x2 - 1)\<bar> \<le> 2 / 100000000000"
    by (simp add: y1_def)
  have y1a: "\<bar>y1 - a\<bar> \<le> 5 / 100000000000"
    using x1e x2e y1e by linarith
  have "\<bar>y1 * 100\<bar> \<le> 2000000" using a y1a by linarith
  from fl_close [OF this] have y2e: "\<bar>y2 - y1 * 100\<bar> \<le> 2 / 1000000000"
    by (simp add: y2_def)
  have "real_of_int odds = a * 100" by (simp add: a_def)
  with y1a y2e have near: "real_of_int odds - 1 < y2" "y2 < real_of_int odds + 1"
    by linarith+
  have pos: "0 \<le> y2" using near(1) assms(1) by simp
  have "odds - 1 \<le> \<lfloor>y2\<rfloor>" using near(1) by (simp add: le_floor_iff)
  moreover have "\<lfloor>y2\<rfloor> \<le> odds" using near(2) by (simp add: floor_le_iff)
  ultimately have fl: "\<lfloor>y2\<rfloor> = odds \<or> \<lfloor>y2\<rfloor> = odds - 1" by linarith
  have ad: "american_to_decimal_fl odds = Inr x2"
    using assms(1) by (simp add: american_to_decimal_fl_def x2_def x1_def a_def)
  have da: "decimal_to_american x2 = Inr \<lfloor>y2\<rfloor>"
    using x2 pos by (simp add: decimal_to_american_def py_int_def y2_def y1_def)
  from ad da fl show ?thesis by blast
qed


lemma american_round_trip_neg:
  assumes "- 1000000 \<le> odds" and "odds \<le> - 101"
  shows "\<exists>d a. american_to_decimal_fl odds = Inr d \<and> decimal_to_american d = Inr a \<and>
           (a = odds \<or> a = odds + 1)"
proof -
  define n where "n = real_of_int \<bar>odds\<bar>"
  define c where "c = 100 / n"
  define x1 where "x1 = fl c"
  define x2 where "x2 = fl (x1 + 1)"
  define y1 where "y1 = fl (x2 - 1)"
  define q where "q = - 100 / y1"
  define v where "v = fl q"
  have n: "101 \<le> n" "n \<le> 1000000" "n = - real_of_int odds"
    using assms by (simp_all add: n_def)
  have nc: "n * c = 100" using n(1) by (simp add: c_def)
  have c: "1 / 10000 \<le> c" "c \<le> 100 / 101"
    using n(1,2) by (simp_all add: c_def field_simps)
  then have "\<bar>c\<bar> \<le> 1" by linarith
  from fl_close [OF this] have x1e: "\<bar>x1 - c\<bar> \<le> 1 / 1000000000000000"
    by (simp add: x1_def)
  have "\<bar>x1 + 1\<bar> \<le> 2" using c x1e by linarith
  from fl_close [OF this] have x2e: "\<bar>x2 - (x1 + 1)\<bar> \<le> 2 / 1000000000000000"
    by (simp add: x2_def)
  have x2: "x2 < 2" using c x1e x2e by linarith
  have "\<bar>x2 - 1\<bar> \<le> 1" using c x1e x2e by linarith
  from fl_close [OF this] have y1e: "\<bar>y1 - (x2 - 1)\<bar> \<le> 1 / 1000000000000000"
    by (simp add: y1_def)
  have y1c: "\<bar>y1 - c\<bar> \<le> 4 / 1000000000000000"
    using x1e x2e y1e by linarith
  have y1: "0 < y1" using y1c c(1) by linarith
  have up: "(n + 1 / 1000) * y1 \<ge> 100"
  proof -
    have "c - 4 / 1000000000000000 \<le> y1" using y1c by linarith
    moreover have "0 \<le> n + 1 / 1000" using n(1) by linarith
    ultimately have "(n + 1 / 1000) * (c - 4 / 1000000000000000) \<le> (n + 1 / 1000) * y1"
      by (rule mult_left_mono)
    moreover have "(n + 1 / 1000) * (c - 4 / 1000000000000000) =
        n * c + c / 1000 - n * (4 / 1000000000000000) - 4 / 1000000000000000000"
      by (simp add: field_simps)
    ultimately show ?thesis using nc n(2) c(1) by linarith
  qed
  have lo: "(n - 1 / 1000) * y1 \<le> 100"
  proof -
    have "y1 \<le> c + 4 / 1000000000000000" using y1c by linarith
    moreover have "0 \<le> n - 1 / 1000" using n(1) by linarith
    ultimately have "(n - 1 / 1000) * y1 \<le> (n - 1 / 1000) * (c + 4 / 1000000000000000)"
      by (rule mult_left_mono)
    moreover have "(n - 1 / 1000) * (c + 4 / 1000000000000000) =
        n * c - c / 1000 + n * (4 / 1000000000000000) - 4 / 1000000000000000000"
      by (simp add: field_simps)
    ultimately show ?thesis using nc n(2) c(1) by linarith
  qed
  have qlo: "- n - 1 / 1000 \<le> q"
    using up y1 by (simp add: q_def field_simps)
  have qhi: "q \<le> - n + 1 / 1000"
    using lo y1 by (simp add: q_def field_simps)
  have "\<bar>q\<bar> \<le> 2000000" using qlo qhi n(1,2) by linarith
  from fl_close [OF this] have ve: "\<bar>v - q\<bar> \<le> 2 / 1000000000"
    by (simp add: v_def)
  have near: "real_of_int odds - 1 < v" "v < real_of_int odds + 1"
    using ve qlo qhi n(3) by linarith+
  have neg: "v < 0" using near(2) assms(2) by linarith
  have "odds \<le> \<lceil>v\<rceil>" using near(1) by (simp add: le_ceiling_iff)
  moreover have "\<lceil>v\<rceil> \<le> odds + 1" using near(2) by (simp add: ceiling_le_iff)
  ultimately have ce: "\<lceil>v\<rceil> = odds \<or> \<lceil>v\<rceil> = odds + 1" by linarith
  have ad: "american_to_decimal_fl odds = Inr x2"
    using assms(2) n(1)
    by (simp add: american_to_decimal_fl_def py_truediv_def x2_def x1_def c_def n_def)
  have da: "decimal_to_american x2 = Inr \<lceil>v\<rceil>"
    using x2 y1 neg
    by (simp add: decimal_to_american_def py_truediv_def py_int_def v_def q_def y1_def)
  from ad da ce show ?thesis by blast
qed


lemma decimal_round_trip_hi:
  assumes "2 \<le> d" and "d \<le> 1000000"
  shows "\<exists>a r. decimal_to_american d = Inr a \<and> 100 \<le> \<bar>a\<bar> \<and>
           american_to_decimal_fl a = Inr r \<and> \<bar>r - d\<bar> < 1 / 100 + 1 / 100000000"
proof -
  define y1 where "y1 = fl (d - 1)"
  define y2 where "y2 = fl (y1 * 100)"
  define a where "a = \<lfloor>y2\<rfloor>"
  define z1 where "z1 = fl (real_of_int a / 100)"
  define r where "r = fl (z1 + 1)"
  have "\<bar>d - 1\<bar> \<le> 1000000" using assms by linarith
  from fl_close [OF this] have y1e: "\<bar>y1 - (d - 1)\<bar> \<le> 1 / 1000000000"
    by (simp add: y1_def)
  have y1: "1 \<le> y1" using assms(1) by (simp add: y1_def fl_ge_one)
  have "\<bar>y1 * 100\<bar> \<le> 200000000" using assms y1e by linarith
  from fl_close [OF this] have y2e: "\<bar>y2 - y1 * 100\<bar> \<le> 2 / 10000000"
    by (simp add: y2_def)
  have y2: "100 \<le> y2" using y1 by (simp add: y2_def fl_ge_hundred)
  have a100: "100 \<le> a" using y2 by (simp add: a_def le_floor_iff)
  have alo: "real_of_int a \<le> y2" unfolding a_def by (rule of_int_floor_le)
  have ahi: "y2 < real_of_int a + 1" unfolding a_def by linarith
  have ra: "100 \<le> real_of_int a" using a100 by simp
  have "\<bar>real_of_int a / 100\<bar> \<le> 2000000" using ra alo y2e y1e assms(2) by linarith
  from fl_close [OF this] have z1e: "\<bar>z1 - real_of_int a / 100\<bar> \<le> 2 / 1000000000"
    by (simp add: z1_def)
  have "\<bar>z1 + 1\<bar> \<le> 3000000" using z1e ra alo y2e y1e assms(2) by linarith
  from fl_close [OF this] have re: "\<bar>r - (z1 + 1)\<bar> \<le> 3 / 1000000000"
    by (simp add: r_def)
  have close: "\<bar>r - d\<bar> < 1 / 100 + 1 / 100000000"
    using re z1e alo ahi y2e y1e by linarith
  have da: "decimal_to_american d = Inr a"
    using assms(1) y2 by (simp add: decimal_to_american_def py_int_def a_def y2_def y1_def)
  have ad: "american_to_decimal_fl a = Inr r"
    using a100 by (simp add: american_to_decimal_fl_def r_def z1_def)
  from da ad a100 close show ?thesis by auto
qed

lemma decimal_round_trip_lo:
  assumes "101 / 100 \<le> d" and "d < 2"
  shows "\<exists>a r. decimal_to_american d = Inr a \<and> 100 \<le> \<bar>a\<bar> \<and>
           american_to_decimal_fl a = Inr r \<and> \<bar>r - d\<bar> < 1 / 100 + 1 / 100000000"
proof -
  define y1 where "y1 = fl (d - 1)"
  define X where "X = 100 / y1"
  define V where "V = fl X"
  define n where "n = \<lfloor>V\<rfloor>"
  define z1 where "z1 = fl (100 / real_of_int n)"
  define r where "r = fl (z1 + 1)"
  have "\<bar>d - 1\<bar> \<le> 1" using assms by linarith
  from fl_close [OF this] have y1e: "\<bar>y1 - (d - 1)\<bar> \<le> 1 / 1000000000000000"
    by (simp add: y1_def)
  have "y1 \<le> 1" using assms by (simp add: y1_def fl_le_one)
  moreover have "1 / 200 \<le> y1" using assms(1) y1e by linarith
  ultimately have y1: "0 < y1" "y1 \<le> 1" "1 / 200 \<le> y1" by linarith+
  have X: "100 \<le> X" "X \<le> 20000"
    using y1 by (simp_all add: X_def field_simps)
  have Xy: "X * y1 = 100" using y1(1) by (simp add: X_def)
  have "\<bar>X\<bar> \<le> 20000" using X by linarith
  from fl_close [OF this] have Ve: "\<bar>V - X\<bar> \<le> 2 / 100000000000"
    by (simp add: V_def)
  have V: "100 \<le> V" using X(1) by (simp add: V_def fl_ge_hundred)
  have n100: "100 \<le> n" using V by (simp add: n_def le_floor_iff)
  have nlo: "real_of_int n \<le> V" unfolding n_def by (rule of_int_floor_le)
  have nhi: "V < real_of_int n + 1" unfolding n_def by linarith
  have rn: "100 \<le> real_of_int n" using n100 by simp
  define c where "c = 100 / real_of_int n"
  have nc: "real_of_int n * c = 100" using rn by (simp add: c_def)
  have c: "0 < c" "c \<le> 1" using rn by (simp_all add: c_def field_simps)
  \<comment> \<open>\<open>n\<close> is within one of \<open>X = 100 / y1\<close>, so \<open>c = 100 / n\<close> is close to \<open>y1\<close>\<close>
  have y0: "0 \<le> y1" using y1(1) by simp
  have "real_of_int n - X \<le> 2 / 100000000000" using nlo Ve by linarith
  then have "(real_of_int n - X) * y1 \<le> (2 / 100000000000) * y1"
    using y0 by (rule mult_right_mono)
  moreover have "(real_of_int n - X) * y1 = real_of_int n * y1 - X * y1"
    by (simp add: algebra_simps)
  ultimately have p1: "real_of_int n * y1 \<le> 100 + 2 / 100000000000"
    using Xy y1(1,2) by linarith
  have "X - real_of_int n \<le> 100000000002 / 100000000000" using nhi Ve by linarith
  then have "(X - real_of_int n) * y1 \<le> (100000000002 / 100000000000) * y1"
    using y0 by (rule mult_right_mono)
  moreover have "(X - real_of_int n) * y1 = X * y1 - real_of_int n * y1"
    by (simp add: algebra_simps)
  ultimately have p2: "100 - (1 + 2 / 100000000000) \<le> real_of_int n * y1"
    using Xy y1(1,2) by linarith
  have "real_of_int n * (y1 - c) = real_of_int n * y1 - real_of_int n * c"
    by (simp add: algebra_simps)
  then have t1: "real_of_int n * (y1 - c) \<le> 2 / 100000000000"
    using p1 nc by linarith
  have hi: "y1 - c \<le> 1 / 1000000000000"
  proof (cases "0 \<le> y1 - c")
    case True
    from rn True have "100 * (y1 - c) \<le> real_of_int n * (y1 - c)"
      by (rule mult_right_mono)
    then have "100 * (y1 - c) \<le> 2 / 100000000000"
      using t1 by (rule order_trans)
    then show ?thesis by argo
  next
    case False
    then show ?thesis by linarith
  qed
  have "real_of_int n * (c - y1) = real_of_int n * c - real_of_int n * y1"
    by (simp add: algebra_simps)
  then have q: "real_of_int n * (c - y1) \<le> 1 + 2 / 100000000000"
    using p2 nc by linarith
  have lo: "c - y1 \<le> 1 / 100 + 1 / 1000000000000"
  proof (cases "0 \<le> c - y1")
    case True
    from rn True have "100 * (c - y1) \<le> real_of_int n * (c - y1)"
      by (rule mult_right_mono)
    then have "100 * (c - y1) \<le> 1 + 2 / 100000000000"
      using q by (rule order_trans)
    then show ?thesis by argo
  next
    case False
    then show ?thesis by linarith
  qed
  have "\<bar>c\<bar> \<le> 1" using c by linarith
  from fl_close [OF this] have z1e: "\<bar>z1 - c\<bar> \<le> 1 / 1000000000000000"
    by (simp add: z1_def c_def)
  have "\<bar>z1 + 1\<bar> \<le> 3" using c z1e by linarith
  from fl_close [OF this] have re: "\<bar>r - (z1 + 1)\<bar> \<le> 3 / 1000000000000000"
    by (simp add: r_def)
  have close: "\<bar>r - d\<bar> < 1 / 100 + 1 / 100000000"
    using re z1e lo hi y1e by linarith
  have "py_truediv (- 100) y1 = Inr (- X)"
    using y1(1) by (simp add: py_truediv_def X_def)
  moreover have "py_int (fl (- X)) = - n"
    using V by (simp add: fl_minus py_int_def V_def [symmetric] n_def ceiling_minus)
  ultimately have da: "decimal_to_american d = Inr (- n)"
    using assms(2) by (simp add: decimal_to_american_def y1_def [symmetric])
  have ad: "american_to_decimal_fl (- n) = Inr r"
    using n100 by (simp add: american_to_decimal_fl_def py_truediv_def r_def z1_def)
  from da ad n100 close show ?thesis by auto
qed


text \<open>
  The float operations of the two conversions at odds -110.
\<close>

lemma fl_minus_110_steps:
  "fl (10 / 11) = 8188362958855447 / 9007199254740992"
  "fl (17195562213596439 / 9007199254740992) = 2149445276699555 / 1125899906842624"
  "fl (1023545369856931 / 1125899906842624) = 1023545369856931 / 1125899906842624"
  "fl (112589990684262400 / 1023545369856931) = 7740561859543039 / 70368744177664"
  using fl_eval [of "10 / 11" 53]
    fl_eval [of "17195562213596439 / 9007199254740992" 52]
    fl_eval [of "1023545369856931 / 1125899906842624" 53]
    fl_eval [of "112589990684262400 / 1023545369856931" 46]
  by (simp_all add: rne_def)

text \<open>
  C5, as stated, fails. Odds -100 have decimal odds 2, which \<open>decimal_to_american\<close> sends
  to +100. Odds -110 have the float 1.9090909090909092 as decimal odds; the quotient
  the conversion back computes rounds to -109.99999999999999, which \<open>int()\<close> truncates
  to -109.
\<close>

theorem round_trip_counterexample:
  "american_to_decimal_fl (- 100) = Inr 2 \<and> decimal_to_american 2 = Inr 100 \<and>
   american_to_decimal_fl (- 110) = Inr (2149445276699555 / 1125899906842624) \<and>
   decimal_to_american (2149445276699555 / 1125899906842624) = Inr (- 109)"
  by (simp add: american_to_decimal_fl_def decimal_to_american_def py_truediv_def py_int_def
      fl_one fl_two fl_hundred fl_minus fl_minus_110_steps)

text \<open>
  C5, amended. With every float operation rounded as binary64 does: for American odds
  from 100 to 1000000 the round trip returns the odds or the odds minus one; for odds from
  -1000000 to -101 it returns the odds or the odds plus one; odds -100 come back as +100.
  For decimal odds from 1.01 to 1000000, \<open>decimal_to_american\<close> returns an integer of
  magnitude at least 100, and the decimal odds of that integer differ from the given ones
  by less than 0.01 + 0.00000001.
\<close>

theorem odds_round_trip:
  "(100 \<le> odds \<and> odds \<le> 1000000 \<longrightarrow>
      (\<exists>d a. american_to_decimal_fl odds = Inr d \<and> decimal_to_american d = Inr a \<and>
         (a = odds \<or> a = odds - 1))) \<and>
   (- 1000000 \<le> odds \<and> odds \<le> - 101 \<longrightarrow>
      (\<exists>d a. american_to_decimal_fl odds = Inr d \<and> decimal_to_american d = Inr a \<and>
         (a = odds \<or> a = odds + 1))) \<and>
   (101 / 100 \<le> dec \<and> dec \<le> 1000000 \<longrightarrow>
      (\<exists>a r. decimal_to_american dec = Inr a \<and> 100 \<le> \<bar>a\<bar> \<and>
         american_to_decimal_fl a = Inr r \<and> \<bar>r - dec\<bar> < 1 / 100 + 1 / 100000000)) \<and>
   american_to_decimal_fl (- 100) = Inr 2 \<and> decimal_to_american 2 = Inr 100"
proof -
  have even_money: "american_to_decimal_fl (- 100) = Inr 2 \<and> decimal_to_american 2 = Inr 100"
    by (simp add: american_to_decimal_fl_def decimal_to_american_def py_truediv_def
        py_int_def fl_one fl_two fl_hundred)
  show ?thesis
    using american_round_trip_pos [of odds] american_round_trip_neg [of odds]
      decimal_round_trip_hi [of dec] decimal_round_trip_lo [of dec] even_money
    by (cases "2 \<le> dec") auto
qed


text \<open>
  The float operations of the round trips of odds +115 and of decimal odds 2.15.
\<close>

lemma fl_115_steps:
  "fl (23 / 20) = 2589569785738035 / 2251799813685248"
  "fl (4841369599423283 / 2251799813685248) = 4841369599423283 / 2251799813685248"
  "fl (2589569785738035 / 2251799813685248) = 2589569785738035 / 2251799813685248"
  "fl (64739244643450875 / 562949953421312) = 8092405580431359 / 70368744177664"
  "fl (57 / 50) = 5134103575202365 / 4503599627370496"
  "fl (9637703202572861 / 4503599627370496) = 2409425800643215 / 1125899906842624"
  using fl_eval [of "23 / 20" 52]
    fl_eval [of "4841369599423283 / 2251799813685248" 51]
    fl_eval [of "2589569785738035 / 2251799813685248" 52]
    fl_eval [of "64739244643450875 / 562949953421312" 46]
    fl_eval [of "57 / 50" 52]
    fl_eval [of "9637703202572861 / 4503599627370496" 51]
  by (simp_all add: rne_def)

theorem odds_round_trip_witness:
  "(100::int) \<le> 115 \<and> (115::int) \<le> 1000000 \<and>
   american_to_decimal_fl 115 = Inr (4841369599423283 / 2251799813685248) \<and>
   decimal_to_american (4841369599423283 / 2251799813685248) = Inr 114 \<and>
   (- 1000000::int) \<le> - 110 \<and> (- 110::int) \<le> - 101 \<and>
   american_to_decimal_fl (- 110) = Inr (2149445276699555 / 1125899906842624) \<and>
   decimal_to_american (2149445276699555 / 1125899906842624) = Inr (- 109) \<and>
   (101::real) / 100 \<le> 43 / 20 \<and> (43::real) / 20 \<le> 1000000 \<and>
   decimal_to_american (43 / 20) = Inr 114 \<and>
   american_to_decimal_fl 114 = Inr (2409425800643215 / 1125899906842624) \<and>
   \<bar>(2409425800643215::real) / 1125899906842624 - 43 / 20\<bar> < 1 / 100 + 1 / 100000000 \<and>
   (1::real) / 100 < \<bar>2409425800643215 / 1125899906842624 - 43 / 20\<bar>"
  using odds_round_trip [of 115 "43 / 20"] odds_round_trip [of "- 110" "43 / 20"]
  by (simp add: american_to_decimal_fl_def decimal_to_american_def py_truediv_def py_int_def
      fl_minus fl_minus_110_steps fl_115_steps)

text \<open>
  One iteration of the simulation keeps the bankroll and its peak positive, so no
  division in the loop is by zero; the loop keeps one history entry per settled bet.
\<close>

lemma settle_bet_positive:
  assumes "odds \<noteq> 0" and "0 < p" and "p < 1" and "0 < m" and "m \<le> 1"
    and "0 < current_bankroll s"
  shows "\<exists>s'. settle_bet draw p odds m s = Inr s' \<and> 0 < current_bankroll s' \<and>
           wins s' + losses s' = wins s + losses s + 1 \<and>
           bankroll_history s' = bankroll_history s \<and>
           peak_bankroll s' = peak_bankroll s"
proof -
  from american_to_decimal_gt_one [OF assms(1)] obtain d
    where d: "american_to_decimal odds = Inr d" "1 < d" by blast
  from kelly_fraction_bounds [OF assms(1), of p] obtain f
    where f: "calculate_kelly_fraction p odds = Inr f" "0 \<le> f" "f < 1" by blast
  define stake where "stake = current_bankroll s * f * m"
  have fm0: "0 \<le> f * m" using f(2) assms(4) by simp
  have "f * m \<le> f * 1" using assms(5) f(2) by (rule mult_left_mono)
  then have fm1: "f * m < 1" using f(3) by simp
  have stake0: "0 \<le> stake"
    using assms(6) fm0 by (simp add: stake_def mult.assoc)
  have "current_bankroll s * (f * m) < current_bankroll s * 1"
    using assms(6) fm1 by (intro mult_strict_left_mono)
  then have stake1: "stake < current_bankroll s" by (simp add: stake_def mult.assoc)
  have "0 \<le> stake * (d - 1)" using stake0 d(2) by simp
  then have win: "0 < current_bankroll s - stake + stake * d"
    using assms(6) by (simp add: algebra_simps)
  have loss: "0 < current_bankroll s - stake" using stake1 by simp
  show ?thesis
    using d(1) f(1) win loss by (simp add: settle_bet_def Let_def stake_def)
qed

lemma track_metrics_returns:
  assumes "0 < peak_bankroll s"
  shows "\<exists>s'. track_metrics s = Inr s' \<and> current_bankroll s' = current_bankroll s \<and>
           bankroll_history s' = bankroll_history s @ [current_bankroll s] \<and>
           0 < peak_bankroll s' \<and> wins s' = wins s \<and> losses s' = losses s"
  using assms by (simp add: track_metrics_def py_truediv_def Let_def)

lemma sim_bet_positive:
  assumes "odds \<noteq> 0" and "0 < p" and "p < 1" and "0 < m" and "m \<le> 1"
    and "0 < current_bankroll s" and "0 < peak_bankroll s"
  shows "\<exists>s'. sim_bet draw p odds m s = Inr s' \<and> 0 < current_bankroll s' \<and>
           0 < peak_bankroll s' \<and>
           wins s' + losses s' = wins s + losses s + 1 \<and>
           bankroll_history s' = bankroll_history s @ [current_bankroll s']"
proof -
  from settle_bet_positive [OF assms(1-6), of draw] obtain s1
    where s1: "settle_bet draw p odds m s = Inr s1" "0 < current_bankroll s1"
      "wins s1 + losses s1 = wins s + losses s + 1"
      "bankroll_history s1 = bankroll_history s" "peak_bankroll s1 = peak_bankroll s"
    by blast
  from s1(5) assms(7) have "0 < peak_bankroll s1" by simp
  from track_metrics_returns [OF this] obtain s2
    where s2: "track_metrics s1 = Inr s2" "current_bankroll s2 = current_bankroll s1"
      "bankroll_history s2 = bankroll_history s1 @ [current_bankroll s1]"
      "0 < peak_bankroll s2" "wins s2 = wins s1" "losses s2 = losses s1"
    by blast
  show ?thesis
    using s1 s2 by (simp add: sim_bet_def)
qed

lemma sim_loop_invariant:
  assumes "odds \<noteq> 0" and "0 < p" and "p < 1" and "0 < m" and "m \<le> 1"
  shows "0 < current_bankroll s \<Longrightarrow> 0 < peak_bankroll s \<Longrightarrow>
         \<forall>x \<in> set (bankroll_history s). 0 \<le> x \<Longrightarrow>
         int (length (bankroll_history s)) = wins s + losses s + 1 \<Longrightarrow>
         \<exists>s'. sim_loop rnd p odds m ks s = Inr s' \<and>
              0 \<le> current_bankroll s' \<and>
              (\<forall>x \<in> set (bankroll_history s'). 0 \<le> x) \<and>
              int (length (bankroll_history s')) = wins s' + losses s' + 1 \<and>
              wins s' + losses s' \<le> wins s + losses s + int (length ks)"
proof (induction ks arbitrary: s)
  case Nil
  then show ?case by simp
next
  case (Cons k ks)
  from sim_bet_positive [OF assms Cons.prems(1,2), of "rnd k"] obtain s1
    where s1: "sim_bet (rnd k) p odds m s = Inr s1" "0 < current_bankroll s1"
      "0 < peak_bankroll s1" "wins s1 + losses s1 = wins s + losses s + 1"
      "bankroll_history s1 = bankroll_history s @ [current_bankroll s1]"
    by blast
  have hist: "\<forall>x \<in> set (bankroll_history s1). 0 \<le> x"
    using Cons.prems(3) s1(2,5) by auto
  have len: "int (length (bankroll_history s1)) = wins s1 + losses s1 + 1"
    using Cons.prems(4) s1(4,5) by simp
  from Cons.IH [OF s1(2,3) hist len] obtain s2
    where s2: "sim_loop rnd p odds m ks s1 = Inr s2" "0 \<le> current_bankroll s2"
      "\<forall>x \<in> set (bankroll_history s2). 0 \<le> x"
      "int (length (bankroll_history s2)) = wins s2 + losses s2 + 1"
      "wins s2 + losses s2 \<le> wins s1 + losses s1 + int (length ks)"
    by blast
  have "sim_loop rnd p odds m (k # ks) s = Inr s2"
    using s1(1,2) s2(1) by simp
  moreover have "wins s2 + losses s2 \<le> wins s + losses s + int (length (k # ks))"
    using s2(5) s1(4) by simp
  ultimately show ?case using s2(2,3,4) by blast
qed

text \<open>
  C3. For a positive starting bankroll, a win probability in (0,1), odds of magnitude at
  least 100 and a modifier in (0,1], \<open>simulate_kelly_betting\<close> returns for every sequence
  of random draws and every target count \<open>N\<close>: it settles at most \<open>N\<close> bets, records one
  bankroll per settled bet after the starting one, and no recorded bankroll is negative.
\<close>

theorem simulation_bounded_nonnegative:
  assumes "0 < B0" and "0 < p" and "p < 1" and "100 \<le> \<bar>odds\<bar>" and "0 < m" and "m \<le> 1"
  shows "\<exists>res. simulate_kelly_betting rnd p odds B0 N m = Inr res \<and>
           total_bets res \<le> max 0 N \<and>
           int (length (history res)) = total_bets res + 1 \<and>
           (\<forall>x \<in> set (history res). 0 \<le> x) \<and>
           0 \<le> final_bankroll res"
proof -
  define s0 where "s0 = \<lparr>bankroll_history = [B0], current_bankroll = B0, wins = 0,
              losses = 0, max_drawdown = 0, peak_bankroll = B0\<rparr>"
  from assms(4) have nz: "odds \<noteq> 0" by auto
  have init: "0 < current_bankroll s0" "0 < peak_bankroll s0"
    "\<forall>x \<in> set (bankroll_history s0). 0 \<le> x"
    "int (length (bankroll_history s0)) = wins s0 + losses s0 + 1"
    using assms(1) by (simp_all add: s0_def)
  from sim_loop_invariant [OF nz assms(2,3,5,6) init, of rnd "[0 ..< nat N]"] obtain s
    where s: "sim_loop rnd p odds m [0 ..< nat N] s0 = Inr s" "0 \<le> current_bankroll s"
      "\<forall>x \<in> set (bankroll_history s). 0 \<le> x"
      "int (length (bankroll_history s)) = wins s + losses s + 1"
      "wins s + losses s \<le> wins s0 + losses s0 + int (length [0 ..< nat N])"
    by blast
  have bound: "wins s + losses s \<le> max 0 N" using s(5) by (simp add: s0_def max_def split: if_splits)
  show ?thesis
    using s(1-4) bound assms(1)
    unfolding simulate_kelly_betting_def s0_def [symmetric]
    by (simp add: py_truediv_def Let_def)
qed

theorem simulation_bounded_nonnegative_witness:
  "(0::real) < 1000 \<and> (0::real) < 3 / 5 \<and> (3::real) / 5 < 1 \<and> (100::int) \<le> \<bar>100\<bar> \<and>
   (0::real) < 1 / 2 \<and> (1::real) / 2 \<le> 1 \<and>
   simulate_kelly_betting (\<lambda>k. if k = 0 then 0 else 9 / 10) (3 / 5) 100 1000 2 (1 / 2) =
     Inr \<lparr>initial_bankroll = 1000, final_bankroll = 990, total_bets = 2, total_wins = 1,
          total_losses = 1, win_rate = 50, roi = - 1, max_drawdown_pct = 10,
          history = [1000, 1100, 990]\<rparr>"
proof -
  have range: "[0 ..< 2] = [0, Suc 0]" by (simp add: upt_rec)
  show ?thesis
    using simulation_bounded_nonnegative
      [of 1000 "3 / 5" 100 "1 / 2" "\<lambda>k. if k = 0 then 0 else 9 / 10" 2]
    by (simp add: simulate_kelly_betting_def range sim_bet_def settle_bet_def
        track_metrics_def calculate_kelly_fraction_def american_to_decimal_def
        py_truediv_def Let_def)
qed

end
